theory Spec2Isabelle
  imports Main "HOL-Library.Sublist"
begin

section \<open>Strings\<close>

text \<open>
  Python strings are modelled as \<^typ>\<open>string\<close>, lists of characters with code points
  0 to 255. The string operations of the standard library that the sources call are
  written out below on that range: \<open>str.lower\<close>, \<open>str.strip\<close>, \<open>str.startswith\<close>
  (\<^const>\<open>prefix\<close>), the substring test \<open>a in b\<close> (\<^const>\<open>sublist\<close>) and the
  regular expressions of \<open>re.sub\<close> and \<open>re.findall\<close>.
\<close>

definition lower_char :: "char \<Rightarrow> char" where
  \<comment> \<open>\<open>str.lower\<close> on one character: A-Z, and the upper-case letters of Latin-1.\<close>
  "lower_char c =
     (let n = (of_char c :: nat)
      in if (65 \<le> n \<and> n \<le> 90) \<or> (192 \<le> n \<and> n \<le> 222 \<and> n \<noteq> 215)
         then char_of (n + 32) else c)"

definition lower :: "string \<Rightarrow> string" where
  "lower s = map lower_char s"

definition is_lower_alnum :: "char \<Rightarrow> bool" where
  \<comment> \<open>The character class \<open>[a-z0-9]\<close>.\<close>
  "is_lower_alnum c =
     (let n = (of_char c :: nat) in (97 \<le> n \<and> n \<le> 122) \<or> (48 \<le> n \<and> n \<le> 57))"

definition is_space :: "char \<Rightarrow> bool" where
  \<comment> \<open>The characters \<open>str.strip()\<close> removes and \<open>\s\<close> matches.\<close>
  "is_space c =
     (let n = (of_char c :: nat)
      in (9 \<le> n \<and> n \<le> 13) \<or> (28 \<le> n \<and> n \<le> 32) \<or> n = 133 \<or> n = 160)"

definition strip :: "string \<Rightarrow> string" where
  "strip s = rev (dropWhile is_space (rev (dropWhile is_space s)))"

section \<open>The match-quality scorer (merge\_attachments\_corrected.py)\<close>

definition simplify_text :: "string \<Rightarrow> string" where
  \<comment> \<open>\<open>re.sub(r'[^a-z0-9]', '', text.lower())\<close>\<close>
  "simplify_text text = filter is_lower_alnum (lower text)"

text \<open>
  \<open>re.findall(r'[a-z0-9]{3,}', s)\<close>: the scan tries each position from the left; at a
  position the greedy class takes the whole run of \<open>[a-z0-9]\<close> that starts there, the
  match succeeds when the run has three characters or more, and the scan goes on after
  the match; otherwise it moves one character on.
\<close>

function findall_words :: "string \<Rightarrow> string list" where
  "findall_words [] = []"
| "findall_words (c # cs) =
     (let w = takeWhile is_lower_alnum (c # cs)
      in if 3 \<le> length w then w # findall_words (dropWhile is_lower_alnum (c # cs))
         else findall_words cs)"
  by pat_completeness auto
termination
proof (relation "measure length")
  show "wf (measure length)" by simp
next
  fix c :: char and cs :: string and w :: string
  assume w: "w = takeWhile is_lower_alnum (c # cs)" and len: "3 \<le> length w"
  have "length (takeWhile is_lower_alnum (c # cs)) + length (dropWhile is_lower_alnum (c # cs))
          = length (c # cs)"
    by (metis length_append takeWhile_dropWhile_id)
  with w len show "(dropWhile is_lower_alnum (c # cs), c # cs) \<in> measure length"
    by simp
next
  fix c :: char and cs :: string and w :: string
  show "(cs, c # cs) \<in> measure length" by simp
qed

definition generic_names :: "string list" where
  "generic_names =
     [''blog_black'', ''blog_white'', ''blog_red'', ''blog_blue'', ''blog_green'',
      ''blog'', ''image'', ''img'', ''unsplash'', ''photo'', ''untitled'',
      ''attachment'', ''screen'', ''title+slide'', ''title'']"

definition count_matches :: "string list \<Rightarrow> string list \<Rightarrow> nat" where
  \<comment> \<open>\<open>sum(1 for fw in filename_words for tw in title_words if fw in tw or tw in fw)\<close>\<close>
  "count_matches filename_words title_words =
     length (filter (\<lambda>(fw, tw). sublist fw tw \<or> sublist tw fw)
               (List.product filename_words title_words))"

definition check_match_quality :: "string \<Rightarrow> string \<Rightarrow> int \<times> bool \<times> string" where
  \<comment> \<open>Returns \<open>(match_score, needs_review, reason)\<close>.\<close>
  "check_match_quality title filename =
     (if filename = [] then (0, True, ''No image'')
      else
        let filename_lower = lower filename in
        case find (\<lambda>generic. filename_lower = generic \<or> prefix (generic @ ''_'') filename_lower)
               generic_names of
          Some generic \<Rightarrow> (1, True, ''Generic image ('' @ generic @ '')'')
        | None \<Rightarrow>
            let simple_title = simplify_text title;
                simple_filename = simplify_text filename
            in if sublist simple_filename simple_title \<or> sublist simple_title simple_filename
               then (10, False, ''Good match'')
               else if 5 \<le> length simple_filename then
                 (let title_words = findall_words simple_title;
                      filename_words = findall_words simple_filename;
                      matches = count_matches filename_words title_words
                  in if 2 \<le> matches then (8, False, ''Partial match'')
                     else if 1 \<le> matches then (5, True, ''Weak match - verify'')
                     else (2, True, ''No match - likely stock photo''))
               else (2, True, ''No match - likely stock photo''))"

section \<open>Records of the export\<close>

text \<open>
  One extracted record, as the extractors build it and as a row of the cleaned table
  holds it: the nine columns \<open>post_id, title, post_type, post_date, category, link,
  excerpt, content, attachment_url\<close>. The reconcilers read a table whose header has
  these columns and whose rows are complete, so every key is present and every value
  is a string.
\<close>

record post =
  post_id :: string
  title :: string
  post_type :: string
  post_date :: string
  category :: string
  link :: string
  excerpt :: string
  content :: string
  attachment_url :: string

text \<open>A merged record of the first reconciler: the ten columns of its output table.\<close>

record merged_basic = post +
  attachment_id :: string

text \<open>
  A merged record of the corrected reconciler: three more columns, \<open>needs_review\<close>
  holding the text \<open>YES\<close> or \<open>NO\<close>.
\<close>

record merged_post = merged_basic +
  attachment_filename :: string
  needs_review :: string
  review_reason :: string

definition is_content :: "'a post_scheme \<Rightarrow> bool" where
  \<comment> \<open>\<open>row['post_type'] in ['post', 'page']\<close>\<close>
  "is_content row = (post_type row \<in> set [''post'', ''page''])"

definition is_attachment :: "'a post_scheme \<Rightarrow> bool" where
  \<comment> \<open>\<open>row['post_type'] == 'attachment'\<close>\<close>
  "is_attachment row = (post_type row = ''attachment'')"

definition content_fields ::
  "'a post_scheme \<Rightarrow> string \<times> string \<times> string \<times> string \<times> string \<times> string \<times> string \<times> string" where
  \<comment> \<open>The eight fields a merged record copies from its content record.\<close>
  "content_fields r =
     (post_id r, title r, post_type r, post_date r, category r, link r, excerpt r, content r)"

section \<open>Deriving the filename of an attachment (merge\_attachments\_corrected.py)\<close>

definition image_exts :: "string list" where
  "image_exts = [''.jpg'', ''.jpeg'', ''.png'', ''.gif'', ''.webp'']"

fun cut_ext :: "string \<Rightarrow> string" where
  \<comment> \<open>On a text with no newline: the text before the leftmost extension.\<close>
  "cut_ext [] = []"
| "cut_ext (c # cs) =
     (if list_ex (\<lambda>e. prefix e (c # cs)) image_exts then [] else c # cut_ext cs)"

definition newline :: char where
  "newline = CHR 0x0A"

definition strip_image_ext :: "string \<Rightarrow> string" where
  \<comment> \<open>\<open>re.sub(r'\.(jpg|jpeg|png|gif|webp).*$', '', s)\<close>. The dot of \<open>.*\<close> matches no
      newline and \<open>$\<close> matches at the end of the text or before a newline that ends
      it, so a match starts in the last line (a final newline apart) and runs to
      its end.\<close>
  "strip_image_ext s =
     (let trail = (if s \<noteq> [] \<and> last s = newline then [newline] else []);
          body = take (length s - length trail) s;
          lastline = rev (takeWhile (\<lambda>c. c \<noteq> newline) (rev body));
          before = take (length body - length lastline) body
      in before @ cut_ext lastline @ trail)"

definition last_segment :: "string \<Rightarrow> string" where
  \<comment> \<open>\<open>path.split('/')[-1]\<close>: the text after the last slash.\<close>
  "last_segment path = rev (takeWhile (\<lambda>c. c \<noteq> CHR ''/'') (rev path))"

text \<open>
  \<open>urlparse(url).path\<close> is the standard library's and it raises \<open>ValueError\<close> on
  some URLs (an unbalanced bracket in the host, as in \<open>http://[bad/x.jpg\<close>). It is
  the parameter \<open>url_path\<close>, with \<open>None\<close> where \<open>urlparse\<close> raises. Nothing in
  merge\_attachments\_corrected.py catches the exception: it ends the run, and no table
  is written.
\<close>

datatype error = ValueError

definition get_filename :: "(string \<Rightarrow> string option) \<Rightarrow> string \<Rightarrow> error + string" where
  "get_filename url_path url =
     (if url = [] then Inr []
      else (case url_path url of
              None \<Rightarrow> Inl ValueError
            | Some path \<Rightarrow> Inr (strip_image_ext (lower (last_segment path)))))"

section \<open>The corrected reconciler (merge\_attachments\_corrected.py)\<close>

definition paired_record :: "post \<Rightarrow> post \<Rightarrow> string \<Rightarrow> merged_post" where
  \<comment> \<open>The merged record of a content row and the attachment row after it, once the
      filename of the attachment is there.\<close>
  "paired_record row next_row filename =
     (let (match_score, review, reason) = check_match_quality (title row) filename
      in \<lparr>post_id = post_id row, title = title row, post_type = post_type row,
          post_date = post_date row, category = category row, link = link row,
          excerpt = excerpt row, content = content row,
          attachment_url = attachment_url next_row, attachment_id = post_id next_row,
          attachment_filename = filename,
          needs_review = (if review then ''YES'' else ''NO''),
          review_reason = reason\<rparr>)"

definition paired_post ::
  "(string \<Rightarrow> string option) \<Rightarrow> post \<Rightarrow> post \<Rightarrow> error + merged_post" where
  \<comment> \<open>\<open>get_filename\<close> is called first; when it raises, no record is built.\<close>
  "paired_post url_path row next_row =
     (case get_filename url_path (attachment_url next_row) of
        Inl e \<Rightarrow> Inl e
      | Inr filename \<Rightarrow> Inr (paired_record row next_row filename))"

definition unpaired_post :: "post \<Rightarrow> merged_post" where
  \<comment> \<open>The merged record of a content row with no attachment after it.\<close>
  "unpaired_post row =
     \<lparr>post_id = post_id row, title = title row, post_type = post_type row,
      post_date = post_date row, category = category row, link = link row,
      excerpt = excerpt row, content = content row,
      attachment_url = [], attachment_id = [],
      attachment_filename = [], needs_review = ''YES'', review_reason = ''No image''\<rparr>"

text \<open>
  One pass through the body of the \<open>while i < len(rows)\<close> loop, on the cursor \<open>i\<close>
  and the list \<open>merged_posts\<close> it appends to; the loop runs it while \<open>i < len(rows)\<close>
  and stops at an exception.
\<close>

definition merge_step ::
  "(string \<Rightarrow> string option) \<Rightarrow> post list \<Rightarrow> nat \<times> merged_post list
     \<Rightarrow> error + nat \<times> merged_post list" where
  "merge_step url_path rows st =
     (let (i, merged_posts) = st; row = rows ! i
      in if is_content row then
           (if i + 1 < length rows \<and> is_attachment (rows ! (i + 1))
            then (case paired_post url_path row (rows ! (i + 1)) of
                    Inl e \<Rightarrow> Inl e
                  | Inr merged_post \<Rightarrow> Inr (i + 2, merged_posts @ [merged_post]))
            else Inr (i + 1, merged_posts @ [unpaired_post row]))
         else Inr (i + 1, merged_posts))"

function merge_loop ::
  "(string \<Rightarrow> string option) \<Rightarrow> post list \<Rightarrow> nat \<Rightarrow> merged_post list
     \<Rightarrow> error + merged_post list" where
  "merge_loop url_path rows i merged_posts =
     (if i < length rows
      then (case merge_step url_path rows (i, merged_posts) of
              Inl e \<Rightarrow> Inl e
            | Inr (i', merged_posts') \<Rightarrow> merge_loop url_path rows i' merged_posts')
      else Inr merged_posts)"
  by pat_completeness auto
termination
  by (relation "measure (\<lambda>(url_path, rows, i, merged_posts). length rows - i)")
     (auto simp add: merge_step_def Let_def split: if_splits sum.splits)

definition merge_attachments_corrected ::
  "(string \<Rightarrow> string option) \<Rightarrow> post list \<Rightarrow> error + merged_post list" where
  "merge_attachments_corrected url_path rows = merge_loop url_path rows 0 []"

text \<open>
  The run of the loop, position by position: the positions of the content rows from
  the cursor on, what the loop makes of the content row at a position, and the first
  exception of a list of results, or the list of their values.
\<close>

definition content_positions :: "post list \<Rightarrow> nat \<Rightarrow> nat list" where
  "content_positions rows i = filter (\<lambda>j. is_content (rows ! j)) [i..<length rows]"

definition attachment_follows :: "post list \<Rightarrow> nat \<Rightarrow> bool" where
  "attachment_follows rows j = (j + 1 < length rows \<and> is_attachment (rows ! (j + 1)))"

definition emitted :: "(string \<Rightarrow> string option) \<Rightarrow> post list \<Rightarrow> nat \<Rightarrow> error + merged_post" where
  "emitted url_path rows j =
     (if attachment_follows rows j then paired_post url_path (rows ! j) (rows ! (j + 1))
      else Inr (unpaired_post (rows ! j)))"

fun collect :: "(error + 'a) list \<Rightarrow> error + 'a list" where
  "collect [] = Inr []"
| "collect (x # xs) =
     (case x of
        Inl e \<Rightarrow> Inl e
      | Inr v \<Rightarrow> (case collect xs of Inl e \<Rightarrow> Inl e | Inr vs \<Rightarrow> Inr (v # vs)))"

section \<open>The reconciler of the formatted pipeline (create\_formatted\_csv.py)\<close>

definition attach :: "post \<Rightarrow> string \<Rightarrow> string \<Rightarrow> merged_basic" where
  \<comment> \<open>The record with \<open>attachment_url\<close> and \<open>attachment_id\<close> set.\<close>
  "attach row url ident =
     \<lparr>post_id = post_id row, title = title row, post_type = post_type row,
      post_date = post_date row, category = category row, link = link row,
      excerpt = excerpt row, content = content row,
      attachment_url = url, attachment_id = ident\<rparr>"

function merge_with_loop :: "post list \<Rightarrow> nat \<Rightarrow> merged_basic list \<Rightarrow> merged_basic list" where
  "merge_with_loop posts i merged =
     (if i < length posts then
        (if is_content (posts ! i) then
           (if i + 1 < length posts \<and> is_attachment (posts ! (i + 1))
            then merge_with_loop posts (i + 2)
                   (merged @ [attach (posts ! i) (attachment_url (posts ! (i + 1)))
                                (post_id (posts ! (i + 1)))])
            else merge_with_loop posts (i + 1) (merged @ [attach (posts ! i) [] []]))
         else merge_with_loop posts (i + 1) merged)
      else merged)"
  by pat_completeness auto
termination
  by (relation "measure (\<lambda>(posts, i, merged). length posts - i)") auto

definition merge_with_attachments :: "post list \<Rightarrow> merged_basic list" where
  "merge_with_attachments posts = merge_with_loop posts 0 []"

section \<open>The first reconciler (merge\_attachments.py)\<close>

text \<open>
  Here an attachment row is merged into the content row after it; a content row
  reached by the cursor itself gets no attachment.
\<close>

function merge_to_posts_loop :: "post list \<Rightarrow> nat \<Rightarrow> merged_basic list \<Rightarrow> merged_basic list" where
  "merge_to_posts_loop rows i merged_posts =
     (if i < length rows then
        (if is_attachment (rows ! i) \<and> i + 1 < length rows \<and> is_content (rows ! (i + 1))
         then merge_to_posts_loop rows (i + 2)
                (merged_posts @ [attach (rows ! (i + 1)) (attachment_url (rows ! i))
                                   (post_id (rows ! i))])
         else if is_content (rows ! i)
         then merge_to_posts_loop rows (i + 1) (merged_posts @ [attach (rows ! i) [] []])
         else merge_to_posts_loop rows (i + 1) merged_posts)
      else merged_posts)"
  by pat_completeness auto
termination
  by (relation "measure (\<lambda>(rows, i, merged_posts). length rows - i)") auto

definition merge_attachments_to_posts :: "post list \<Rightarrow> merged_basic list" where
  "merge_attachments_to_posts rows = merge_to_posts_loop rows 0 []"

section \<open>Searching an export item\<close>

text \<open>
  The extractors read the export as text and find each field with \<open>re.search\<close>. The
  patterns are an opening tag, one group and a closing tag, so a search is a scan of
  the start positions from the left: at a position where the opening tag stands, the
  lazy group \<open>(.*?)\<close> takes the text up to the first closing tag after it. Without
  \<open>re.DOTALL\<close> the group holds no newline, and a position whose group would hold
  one fails. \<open>None\<close> is the result of a search with no match.
\<close>

fun split_first :: "string \<Rightarrow> string \<Rightarrow> (string \<times> string) option" where
  \<comment> \<open>The text before and the text after the first occurrence of a pattern.\<close>
  "split_first pat [] = None"
| "split_first pat (c # cs) =
     (if prefix pat (c # cs) then Some ([], drop (length pat) (c # cs))
      else map_option (\<lambda>(before, rest). (c # before, rest)) (split_first pat cs))"

fun re_search_group :: "bool \<Rightarrow> string \<Rightarrow> string \<Rightarrow> string \<Rightarrow> string option" where
  \<comment> \<open>Group 1 of \<open>re.search(opn + '(.*?)' + cls, item)\<close>, with \<open>re.DOTALL\<close> or not.\<close>
  "re_search_group dotall opn cls [] = None"
| "re_search_group dotall opn cls (c # cs) =
     (if prefix opn (c # cs) then
        (case split_first cls (drop (length opn) (c # cs)) of
           Some (group1, rest) \<Rightarrow>
             if \<not> dotall \<and> newline \<in> set group1 then re_search_group dotall opn cls cs
             else Some group1
         | None \<Rightarrow> re_search_group dotall opn cls cs)
      else re_search_group dotall opn cls cs)"

definition is_digit :: "char \<Rightarrow> bool" where
  \<comment> \<open>The class \<open>\d\<close> on code points 0 to 255.\<close>
  "is_digit c = (let n = (of_char c :: nat) in 48 \<le> n \<and> n \<le> 57)"

fun re_search_digits :: "string \<Rightarrow> string \<Rightarrow> string \<Rightarrow> string option" where
  \<comment> \<open>Group 1 of \<open>re.search(opn + '(\d+)' + cls, item)\<close>: the greedy group takes every
      digit after the opening tag, and the closing tag must follow.\<close>
  "re_search_digits opn cls [] = None"
| "re_search_digits opn cls (c # cs) =
     (if prefix opn (c # cs) then
        (let rest = drop (length opn) (c # cs); digits = takeWhile is_digit rest
         in if digits \<noteq> [] \<and> prefix cls (dropWhile is_digit rest) then Some digits
            else re_search_digits opn cls cs)
      else re_search_digits opn cls cs)"

fun re_search_category :: "string \<Rightarrow> string option" where
  \<comment> \<open>Group 1 of \<open>re.search(r'<category[^>]*><!\[CDATA\[(.*?)\]\]></category>', item)\<close>:
      \<open>[^>]*\<close> runs to the first \<open>>\<close> after the tag name.\<close>
  "re_search_category [] = None"
| "re_search_category (c # cs) =
     (if prefix ''<category'' (c # cs) then
        (let rest = dropWhile (\<lambda>x. x \<noteq> CHR ''>'') (drop (length ''<category'') (c # cs))
         in if prefix ''><![CDATA['' rest then
              (case split_first '']]></category>'' (drop (length ''><![CDATA['') rest) of
                 Some (group1, rest') \<Rightarrow>
                   if newline \<in> set group1 then re_search_category cs else Some group1
               | None \<Rightarrow> re_search_category cs)
            else re_search_category cs)
      else re_search_category cs)"

text \<open>
  \<open>re.split(r'<item>', content)\<close>: the pieces of the text between the occurrences of
  the tag, found from the left.
\<close>

function re_split_item :: "string \<Rightarrow> string list" where
  "re_split_item s =
     (case split_first ''<item>'' s of
        None \<Rightarrow> [s]
      | Some (before, rest) \<Rightarrow> before # re_split_item rest)"
  by pat_completeness auto
termination
proof (relation "measure length")
  show "wf (measure length)" by simp
next
  fix s :: string and x2 before rest
  assume found: "split_first ''<item>'' s = Some x2" and x2: "(before, rest) = x2"
  have "split_first pat t = Some (a, b) \<Longrightarrow> t = a @ pat @ b" for pat t :: string and a b
  proof (induction t arbitrary: a)
    case Nil
    then show ?case by simp
  next
    case (Cons c cs)
    show ?case
    proof (cases "prefix pat (c # cs)")
      case True
      with Cons.prems have "a = []" and "b = drop (length pat) (c # cs)" by simp_all
      with True show ?thesis by (metis append_Nil append_eq_conv_conj prefixE)
    next
      case False
      with Cons.prems obtain a' where "split_first pat cs = Some (a', b)" and "a = c # a'"
        by (auto split: prod.splits)
      with Cons.IH [of a'] show ?thesis by simp
    qed
  qed
  with found x2 have "s = before @ ''<item>'' @ rest" by metis
  then have "length s = length before + 6 + length rest" by simp
  then show "(rest, s) \<in> measure length" by simp
qed

section \<open>The plain extractor (xml\_to\_csv\_converter.py)\<close>

text \<open>
  \<open>clean_html\<close>, the plain-text sanitizer, parses its argument with the BeautifulSoup
  library; the extractor takes it as the parameter \<open>clean\<close>. The function below is the
  body of the loop of \<open>parse_xml_file\<close> up to the test that keeps or drops the record.
\<close>

definition extract_post :: "(string \<Rightarrow> string) \<Rightarrow> string \<Rightarrow> post" where
  "extract_post clean item =
     \<lparr>post_id =
        (case re_search_digits ''<wp:post_id>'' ''</wp:post_id>'' item of
           Some g \<Rightarrow> g | None \<Rightarrow> []),
      title =
        (case re_search_group True ''<title>'' ''</title>'' item of
           Some g \<Rightarrow> clean g | None \<Rightarrow> []),
      post_type =
        (case re_search_group False ''<wp:post_type>'' ''</wp:post_type>'' item of
           Some g \<Rightarrow> g | None \<Rightarrow> []),
      post_date =
        (case re_search_group False ''<wp:post_date>'' ''</wp:post_date>'' item of
           Some g \<Rightarrow> strip g
         | None \<Rightarrow>
             (case re_search_group False ''<pubDate>'' ''</pubDate>'' item of
                Some g \<Rightarrow> strip g | None \<Rightarrow> [])),
      category = (case re_search_category item of Some g \<Rightarrow> g | None \<Rightarrow> []),
      link =
        (case re_search_group True ''<link>'' ''</link>'' item of
           Some g \<Rightarrow> strip g
         | None \<Rightarrow>
             (case re_search_group False ''<wp:post_name>'' ''</wp:post_name>'' item of
                Some g \<Rightarrow>
                  (let post_name = strip g
                   in if prefix ''/'' post_name then post_name
                      else if prefix ''blogfeed/'' post_name \<or> prefix ''2017/'' post_name
                      then ''/'' @ post_name
                      else ''/blogfeed/'' @ post_name)
              | None \<Rightarrow> [])),
      excerpt =
        (case re_search_group True ''<excerpt:encoded><![CDATA['' '']]></excerpt:encoded>'' item of
           Some g \<Rightarrow> clean g | None \<Rightarrow> []),
      content =
        (case re_search_group True ''<content:encoded><![CDATA['' '']]></content:encoded>'' item of
           Some g \<Rightarrow>
             (let full_content = clean g
              in if 1000 < length full_content then take 1000 full_content @ ''...''
                 else full_content)
         | None \<Rightarrow> []),
      attachment_url =
        (if (case re_search_group False ''<wp:post_type>'' ''</wp:post_type>'' item of
               Some g \<Rightarrow> g | None \<Rightarrow> []) = ''attachment''
         then (case re_search_group False ''<wp:attachment_url>'' ''</wp:attachment_url>'' item of
                 Some g \<Rightarrow> g | None \<Rightarrow> [])
         else [])\<rparr>"

fun parse_items :: "(string \<Rightarrow> string) \<Rightarrow> string list \<Rightarrow> post list" where
  \<comment> \<open>The loop \<open>for item in items[1:]\<close>: a record is appended when its id, its title or
      its link is not empty.\<close>
  "parse_items clean [] = []"
| "parse_items clean (item # items) =
     (let p = extract_post clean item
      in if post_id p \<noteq> [] \<or> title p \<noteq> [] \<or> link p \<noteq> []
         then p # parse_items clean items
         else parse_items clean items)"

definition parse_xml_file :: "(string \<Rightarrow> string) \<Rightarrow> string \<Rightarrow> post list" where
  \<comment> \<open>On the text of the export file.\<close>
  "parse_xml_file clean file_text = parse_items clean (tl (re_split_item file_text))"

section \<open>The formatting extractor (create\_formatted\_csv.py)\<close>

text \<open>
  The same loop in \<open>parse_xml_with_formatting\<close>: the title is stripped and not
  sanitized, the link from a post name gets a slash and no more, and the excerpt and
  the content go through \<open>clean_html_preserve_formatting\<close>, the parameter \<open>clean\<close>
  here, with no limit on the length.
\<close>

definition extract_post_formatted :: "(string \<Rightarrow> string) \<Rightarrow> string \<Rightarrow> post" where
  "extract_post_formatted clean item =
     \<lparr>post_id =
        (case re_search_digits ''<wp:post_id>'' ''</wp:post_id>'' item of
           Some g \<Rightarrow> g | None \<Rightarrow> []),
      title =
        (case re_search_group True ''<title>'' ''</title>'' item of
           Some g \<Rightarrow> strip g | None \<Rightarrow> []),
      post_type =
        (case re_search_group False ''<wp:post_type>'' ''</wp:post_type>'' item of
           Some g \<Rightarrow> g | None \<Rightarrow> []),
      post_date =
        (case re_search_group False ''<wp:post_date>'' ''</wp:post_date>'' item of
           Some g \<Rightarrow> strip g
         | None \<Rightarrow>
             (case re_search_group False ''<pubDate>'' ''</pubDate>'' item of
                Some g \<Rightarrow> strip g | None \<Rightarrow> [])),
      category = (case re_search_category item of Some g \<Rightarrow> g | None \<Rightarrow> []),
      link =
        (case re_search_group True ''<link>'' ''</link>'' item of
           Some g \<Rightarrow> strip g
         | None \<Rightarrow>
             (case re_search_group False ''<wp:post_name>'' ''</wp:post_name>'' item of
                Some g \<Rightarrow>
                  (let post_name = strip g
                   in if \<not> prefix ''/'' post_name then ''/'' @ post_name else post_name)
              | None \<Rightarrow> [])),
      excerpt =
        (case re_search_group True ''<excerpt:encoded><![CDATA['' '']]></excerpt:encoded>'' item of
           Some g \<Rightarrow> clean g | None \<Rightarrow> []),
      content =
        (case re_search_group True ''<content:encoded><![CDATA['' '']]></content:encoded>'' item of
           Some g \<Rightarrow> clean g | None \<Rightarrow> []),
      attachment_url =
        (if (case re_search_group False ''<wp:post_type>'' ''</wp:post_type>'' item of
               Some g \<Rightarrow> g | None \<Rightarrow> []) = ''attachment''
         then (case re_search_group False ''<wp:attachment_url>'' ''</wp:attachment_url>'' item of
                 Some g \<Rightarrow> g | None \<Rightarrow> [])
         else [])\<rparr>"

fun parse_items_formatted :: "(string \<Rightarrow> string) \<Rightarrow> string list \<Rightarrow> post list" where
  "parse_items_formatted clean [] = []"
| "parse_items_formatted clean (item # items) =
     (let p = extract_post_formatted clean item
      in if post_id p \<noteq> [] \<or> title p \<noteq> [] \<or> link p \<noteq> []
         then p # parse_items_formatted clean items
         else parse_items_formatted clean items)"

definition parse_xml_with_formatting :: "(string \<Rightarrow> string) \<Rightarrow> string \<Rightarrow> post list" where
  "parse_xml_with_formatting clean file_text =
     parse_items_formatted clean (tl (re_split_item file_text))"

definition attachment_assignment ::
  "'a merged_basic_scheme \<Rightarrow> string \<times> string \<times> string" where
  \<comment> \<open>Which attachment a merged record carries, and for which content record.\<close>
  "attachment_assignment m = (post_id m, attachment_url m, attachment_id m)"

section \<open>The sanitizers (xml\_to\_csv\_converter.py, create\_formatted\_csv.py)\<close>






















section \<open>The live image resolver (scrape\_images\_v2.py, scrape\_images.py)\<close>

text \<open>
  The resolver fetches a page, parses it with BeautifulSoup and asks the parsed page for
  elements. The page is modelled by the answers to those questions: \<open>select_one\<close>
  gives for a CSS selector the first \<open>img\<close> element it selects, with the three
  attributes the code reads, and \<open>og_image\<close> and \<open>twitter_image\<close> give the
  \<open>content\<close> attribute of the two \<open>meta\<close> elements; \<open>None\<close> is an element or an
  attribute that is not there. A request that fails, or any exception, is the fetched
  page \<open>None\<close>: the function catches it and returns \<open>None\<close>. \<open>urljoin\<close> is the
  standard library's and a parameter.
\<close>

record img_tag =
  data_src :: "string option"
  data_image :: "string option"
  src :: "string option"

record page =
  select_one :: "string \<Rightarrow> img_tag option"
  og_image :: "string option option"
  twitter_image :: "string option option"

definition truthy :: "string option \<Rightarrow> bool" where
  \<comment> \<open>Python's truth value of an attribute: there and not empty.\<close>
  "truthy a = (case a of Some (c # cs) \<Rightarrow> True | _ \<Rightarrow> False)"

definition py_or :: "string option \<Rightarrow> string option \<Rightarrow> string option" where
  \<comment> \<open>\<open>a or b\<close>\<close>
  "py_or a b = (if truthy a then a else b)"

definition selectors :: "string list" where
  "selectors =
     [''.blog-item-top-wrapper img'',
      ''article .image-block img'',
      ''.blog-item-wrapper .sqs-block-image img'',
      ''.BlogItem-image img'',
      ''figure.blog-item-top-wrapper img'',
      ''.entry-header img'',
      ''.sqs-block-image-figure img'']"

definition full_url :: "(string \<Rightarrow> string \<Rightarrow> string) \<Rightarrow> string \<Rightarrow> string \<Rightarrow> string" where
  \<comment> \<open>``Make sure it's a full URL''.\<close>
  "full_url urljoin url img_url =
     (if prefix ''//'' img_url then ''https:'' @ img_url
      else if prefix ''/'' img_url then urljoin url img_url
      else img_url)"

fun try_selectors ::
  "(string \<Rightarrow> string \<Rightarrow> string) \<Rightarrow> string \<Rightarrow> page \<Rightarrow> string list \<Rightarrow> string option" where
  \<comment> \<open>The loop \<open>for selector in selectors\<close>; \<open>None\<close> when it ends with no return.\<close>
  "try_selectors urljoin url pg [] = None"
| "try_selectors urljoin url pg (selector # rest) =
     (case select_one pg selector of
        None \<Rightarrow> try_selectors urljoin url pg rest
      | Some img \<Rightarrow>
          (let img_url = py_or (data_src img) (py_or (data_image img) (src img))
           in if truthy img_url then
                (let img_url' = full_url urljoin url (the img_url)
                 in if \<not> sublist ''logo'' (lower img_url') \<and> \<not> sublist ''icon'' (lower img_url')
                    then Some img_url'
                    else try_selectors urljoin url pg rest)
              else try_selectors urljoin url pg rest))"

definition meta_content :: "string option option \<Rightarrow> string option" where
  \<comment> \<open>\<open>tag and tag.get('content')\<close>, when it is true.\<close>
  "meta_content tag = (case tag of Some a \<Rightarrow> (if truthy a then a else None) | None \<Rightarrow> None)"

definition get_header_image ::
  "(string \<Rightarrow> string \<Rightarrow> string) \<Rightarrow> string \<Rightarrow> page option \<Rightarrow> string option" where
  \<comment> \<open>\<open>get_header_image\<close> of scrape\_images\_v2.py, on the page the request fetched.\<close>
  "get_header_image urljoin url fetched =
     (case fetched of
        None \<Rightarrow> None
      | Some pg \<Rightarrow>
          (case try_selectors urljoin url pg selectors of
             Some img_url \<Rightarrow> Some img_url
           | None \<Rightarrow>
               (case meta_content (og_image pg) of
                  Some c \<Rightarrow> Some c
                | None \<Rightarrow> meta_content (twitter_image pg))))"

definition img_source :: "img_tag option \<Rightarrow> string option" where
  \<comment> \<open>The two tests of scrape\_images.py on a selected element: \<open>data-src\<close>, then
      \<open>src\<close>.\<close>
  "img_source sel =
     (case sel of
        None \<Rightarrow> None
      | Some img \<Rightarrow>
          (if truthy (data_src img) then data_src img
           else if truthy (src img) then src img else None))"

definition get_header_image_v1 :: "page option \<Rightarrow> string option" where
  \<comment> \<open>\<open>get_header_image\<close> of scrape\_images.py: three selectors, then \<open>og:image\<close>.\<close>
  "get_header_image_v1 fetched =
     (case fetched of
        None \<Rightarrow> None
      | Some pg \<Rightarrow>
          (case img_source (select_one pg ''.blog-item-top-wrapper img'') of
             Some u \<Rightarrow> Some u
           | None \<Rightarrow>
               (case img_source (select_one pg ''article img, .sqs-block-image img'') of
                  Some u \<Rightarrow> Some u
                | None \<Rightarrow>
                    (case img_source (select_one pg ''.blog-item-content-wrapper img'') of
                       Some u \<Rightarrow> Some u
                     | None \<Rightarrow> meta_content (og_image pg)))))"

text \<open>
  Pages: one with no image element and an \<open>og:image\<close> that is a root-relative logo,
  and one whose header image is lazy-loaded from a protocol-relative URL.
\<close>

definition page_logo_meta :: page where
  "page_logo_meta =
     \<lparr>select_one = (\<lambda>selector. None),
      og_image = Some (Some ''/assets/site-logo.png''),
      twitter_image = None\<rparr>"

definition page_header_img :: page where
  "page_header_img =
     \<lparr>select_one = (\<lambda>selector.
        if selector = ''.blog-item-top-wrapper img''
        then Some \<lparr>data_src = Some ''//images.example.com/kayak.jpg'', data_image = None,
                    src = Some ''/static/placeholder.gif''\<rparr>
        else None),
      og_image = Some (Some ''https://www.example.com/share.png''),
      twitter_image = None\<rparr>"

section \<open>Sample records\<close>

text \<open>
  A post, a page, an attachment with a URL, an attachment with none and an attachment
  with a URL that \<open>urlparse\<close> rejects, for the concrete runs below, and what
  \<open>urlparse(url).path\<close> is on their URLs.
\<close>

definition post_a :: post where
  "post_a = \<lparr>post_id = ''101'', title = ''Summer BBQ Recap'', post_type = ''post'',
     post_date = ''2019-07-04'', category = ''Events'', link = ''/blogfeed/summer-bbq-recap'',
     excerpt = [], content = [], attachment_url = []\<rparr>"

definition post_b :: post where
  "post_b = \<lparr>post_id = ''102'', title = ''Kayak Trip Tips'', post_type = ''page'',
     post_date = ''2019-08-01'', category = [], link = ''/kayak'',
     excerpt = [], content = [], attachment_url = []\<rparr>"

definition media_x :: post where
  "media_x = \<lparr>post_id = ''201'', title = ''summer-bbq-recap.jpg'', post_type = ''attachment'',
     post_date = [], category = [], link = [],
     excerpt = [], content = [], attachment_url = ''https://cdn.example.com/img/summer-bbq-recap.jpg''\<rparr>"

definition media_empty :: post where
  "media_empty = \<lparr>post_id = ''202'', title = [], post_type = ''attachment'',
     post_date = [], category = [], link = [],
     excerpt = [], content = [], attachment_url = []\<rparr>"

definition media_bad :: post where
  "media_bad = \<lparr>post_id = ''203'', title = [], post_type = ''attachment'',
     post_date = [], category = [], link = [],
     excerpt = [], content = [], attachment_url = ''http://[bad/x.jpg''\<rparr>"

definition urlparse_path_sample :: "string \<Rightarrow> string option" where
  \<comment> \<open>What \<open>urlparse(url).path\<close> does on the URLs of the sample records.\<close>
  "urlparse_path_sample url =
     (if url = ''http://[bad/x.jpg'' then None
      else if url = ''https://cdn.example.com/img/summer-bbq-recap.jpg''
      then Some ''/img/summer-bbq-recap.jpg''
      else Some url)"

text \<open>
  Export items: a post with a post name and no link, a post name with a slash and
  blanks around it, an item with an id only, and an item with an empty title, no id
  and no link.
\<close>

definition sample_item :: string where
  "sample_item = ''<title>Hello</title><wp:post_name>hello</wp:post_name><wp:post_id>7</wp:post_id><wp:post_type>post</wp:post_type>''"

definition sample_item_slash :: string where
  "sample_item_slash = ''<wp:post_name> /about </wp:post_name>''"



declare merge_loop.simps [simp del]
declare merge_with_loop.simps [simp del]
declare merge_to_posts_loop.simps [simp del]
declare re_split_item.simps [simp del]

section \<open>Lemmas on the scorer\<close>

text \<open>
  A simplified text holds characters of \<open>[a-z0-9]\<close> only, so \<open>findall_words\<close> finds in
  it one word, the whole text, or none.
\<close>

lemma findall_words_alnum:
  "\<forall>c \<in> set s. is_lower_alnum c \<Longrightarrow> findall_words s = (if 3 \<le> length s then [s] else [])"
proof (induction s)
  case Nil
  then show ?case by simp
next
  case (Cons c cs)
  then have tw: "takeWhile is_lower_alnum (c # cs) = c # cs"
    and dw: "dropWhile is_lower_alnum (c # cs) = []"
    by (simp_all add: takeWhile_eq_all_conv)
  have eq: "findall_words (c # cs) =
      (if 3 \<le> length (c # cs) then (c # cs) # findall_words [] else findall_words cs)"
    unfolding findall_words.simps(2) [of c cs] Let_def tw dw ..
  show ?case
  proof (cases "3 \<le> length (c # cs)")
    case True
    then show ?thesis unfolding eq by simp
  next
    case False
    moreover have "findall_words cs = []" using Cons False by simp
    ultimately show ?thesis unfolding eq by simp
  qed
qed

lemma simplify_text_alnum: "\<forall>c \<in> set (simplify_text t). is_lower_alnum c"
  by (simp add: simplify_text_def)

lemma findall_words_simplify:
  "findall_words (simplify_text t) =
     (if 3 \<le> length (simplify_text t) then [simplify_text t] else [])"
  by (rule findall_words_alnum) (rule simplify_text_alnum)

lemma count_matches_simplified:
  "\<not> sublist (simplify_text f) (simplify_text t) \<Longrightarrow>
   \<not> sublist (simplify_text t) (simplify_text f) \<Longrightarrow>
   count_matches (findall_words (simplify_text f)) (findall_words (simplify_text t)) = 0"
  by (simp add: findall_words_simplify count_matches_def)

lemma check_match_quality_cases:
  "check_match_quality t filename \<in>
     {(0, True, ''No image''), (10, False, ''Good match''),
      (2, True, ''No match - likely stock photo'')}
     \<union> (\<lambda>g. (1, True, ''Generic image ('' @ g @ '')'')) ` set generic_names"
proof (cases "filename = []")
  case True
  then show ?thesis by (simp add: check_match_quality_def)
next
  case False
  show ?thesis
  proof (cases "find (\<lambda>generic. lower filename = generic
                   \<or> prefix (generic @ ''_'') (lower filename)) generic_names")
    case (Some g)
    then have "g \<in> set generic_names" by (auto simp: find_Some_iff)
    with Some False show ?thesis by (simp add: check_match_quality_def Let_def)
  next
    case None
    with False show ?thesis
      by (simp add: check_match_quality_def Let_def count_matches_simplified)
  qed
qed

section \<open>Lemmas on the reconcilers\<close>

lemma content_fields_paired [simp]:
  "content_fields (paired_record r n f) = content_fields r"
  by (simp add: content_fields_def paired_record_def Let_def split: prod.splits)

lemma content_fields_unpaired [simp]: "content_fields (unpaired_post r) = content_fields r"
  by (simp add: content_fields_def unpaired_post_def)

lemma content_fields_attach [simp]: "content_fields (attach r u a) = content_fields r"
  by (simp add: content_fields_def attach_def)

lemma attachment_not_content: "is_attachment r \<Longrightarrow> \<not> is_content r"
  by (simp add: is_attachment_def is_content_def)

lemma drop_two:
  "i + 1 < length rows \<Longrightarrow> drop i rows = rows ! i # rows ! (i + 1) # drop (i + 2) rows"
  by (metis Cons_nth_drop_Suc Suc_eq_plus1 Suc_lessD add_2_eq_Suc')

lemma drop_one: "i < length rows \<Longrightarrow> drop i rows = rows ! i # drop (i + 1) rows"
  by (simp add: Cons_nth_drop_Suc)

lemma merge_step_paired:
  "is_content (rows ! i) \<Longrightarrow> attachment_follows rows i \<Longrightarrow>
   merge_step up rows (i, acc) =
     (case paired_post up (rows ! i) (rows ! (i + 1)) of
        Inl e \<Rightarrow> Inl e | Inr m \<Rightarrow> Inr (i + 2, acc @ [m]))"
  by (simp add: merge_step_def attachment_follows_def)

lemma merge_step_unpaired:
  "is_content (rows ! i) \<Longrightarrow> \<not> attachment_follows rows i \<Longrightarrow>
   merge_step up rows (i, acc) = Inr (i + 1, acc @ [unpaired_post (rows ! i)])"
  by (auto simp add: merge_step_def attachment_follows_def)

lemma merge_step_skip:
  "\<not> is_content (rows ! i) \<Longrightarrow> merge_step up rows (i, acc) = Inr (i + 1, acc)"
  by (simp add: merge_step_def)

lemma content_positions_step:
  "i < length rows \<Longrightarrow>
   content_positions rows i =
     (if is_content (rows ! i) then i # content_positions rows (i + 1)
      else content_positions rows (i + 1))"
  by (simp add: content_positions_def upt_conv_Cons)

lemma content_positions_end: "\<not> i < length rows \<Longrightarrow> content_positions rows i = []"
  by (simp add: content_positions_def)

lemma content_positions_skip:
  "attachment_follows rows i \<Longrightarrow> content_positions rows (i + 1) = content_positions rows (i + 2)"
  using content_positions_step [of "i + 1" rows]
  by (simp add: attachment_follows_def attachment_not_content)

text \<open>The run of the loop is the list of what it makes of each content row.\<close>

lemma merge_loop_run:
  "merge_loop up rows i acc =
     (case collect (map (emitted up rows) (content_positions rows i)) of
        Inl e \<Rightarrow> Inl e
      | Inr new \<Rightarrow> Inr (acc @ new))"
proof (induction up rows i acc rule: merge_loop.induct)
  case (1 up rows i acc)
  show ?case
  proof (cases "i < length rows")
    case False
    then show ?thesis
      by (subst merge_loop.simps) (simp add: content_positions_end)
  next
    case in_range: True
    show ?thesis
    proof (cases "is_content (rows ! i)")
      case False
      then have st: "merge_step up rows (i, acc) = Inr (i + 1, acc)" by (rule merge_step_skip)
      from "1.IH" [OF in_range st refl] in_range False st show ?thesis
        by (subst merge_loop.simps) (simp add: content_positions_step [of i rows])
    next
      case cont: True
      show ?thesis
      proof (cases "attachment_follows rows i")
        case no: False
        then have st: "merge_step up rows (i, acc) = Inr (i + 1, acc @ [unpaired_post (rows ! i)])"
          using cont by (simp add: merge_step_unpaired)
        from no have em: "emitted up rows i = Inr (unpaired_post (rows ! i))"
          by (simp add: emitted_def)
        from "1.IH" [OF in_range st refl] in_range cont st em show ?thesis
          by (subst merge_loop.simps)
             (simp add: content_positions_step [of i rows] split: sum.splits)
      next
        case yes: True
        then have em: "emitted up rows i = paired_post up (rows ! i) (rows ! (i + 1))"
          by (simp add: emitted_def)
        show ?thesis
        proof (cases "paired_post up (rows ! i) (rows ! (i + 1))")
          case (Inl e)
          with cont yes have st: "merge_step up rows (i, acc) = Inl e"
            by (simp add: merge_step_paired)
          from in_range cont st em Inl show ?thesis
            by (subst merge_loop.simps) (simp add: content_positions_step [of i rows])
        next
          case (Inr m)
          with cont yes have st: "merge_step up rows (i, acc) = Inr (i + 2, acc @ [m])"
            by (simp add: merge_step_paired)
          from "1.IH" [OF in_range st refl] in_range cont st em Inr
            content_positions_skip [OF yes]
          show ?thesis
            by (subst merge_loop.simps)
               (simp add: content_positions_step [of i rows] split: sum.splits)
        qed
      qed
    qed
  qed
qed

lemma collect_Inr:
  "collect xs = Inr vs \<Longrightarrow> xs = map Inr vs"
  by (induction xs arbitrary: vs) (auto split: sum.splits)

lemma collect_map_Inr: "collect (map Inr vs) = Inr vs"
  by (induction vs) simp_all

lemma collect_all_Inr:
  "\<forall>x \<in> set xs. \<exists>v. x = Inr v \<Longrightarrow> \<exists>vs. collect xs = Inr vs"
  by (induction xs) (auto split: sum.splits)

lemma collect_Inl:
  "Inl e \<in> set xs \<Longrightarrow> \<exists>e'. collect xs = Inl e'"
  by (induction xs) (auto split: sum.splits)

lemma filter_positions: "map ((!) rows) (content_positions rows 0) = filter is_content rows"
proof -
  have "filter is_content (map ((!) rows) [0..<length rows])
      = map ((!) rows) (filter (is_content \<circ> (!) rows) [0..<length rows])"
    by (rule filter_map)
  then show ?thesis by (simp add: map_nth content_positions_def comp_def)
qed


lemma merge_with_loop_content:
  "map content_fields (merge_with_loop rows i acc) =
     map content_fields acc @ map content_fields (filter is_content (drop i rows))"
proof (induction rows i acc rule: merge_with_loop.induct)
  case (1 rows i acc)
  show ?case
  proof (cases "i < length rows")
    case False
    then show ?thesis by (subst merge_with_loop.simps) simp
  next
    case in_range: True
    show ?thesis
    proof (cases "is_content (rows ! i)")
      case False
      with in_range "1.IH"(3) show ?thesis
        by (subst merge_with_loop.simps) (simp add: drop_one [of i rows])
    next
      case cont: True
      show ?thesis
      proof (cases "i + 1 < length rows \<and> is_attachment (rows ! (i + 1))")
        case True
        with in_range cont "1.IH"(1) show ?thesis
          by (subst merge_with_loop.simps) (simp add: drop_two [of i rows] attachment_not_content)
      next
        case False
        with in_range cont "1.IH"(2) show ?thesis
          by (subst merge_with_loop.simps) (auto simp add: drop_one [of i rows])
      qed
    qed
  qed
qed

lemma emitted_content:
  "emitted up rows j = Inr m \<Longrightarrow> content_fields m = content_fields (rows ! j)"
  by (auto simp add: emitted_def paired_post_def split: if_splits sum.splits)

lemma emitted_attachment:
  "emitted up rows j = Inr m \<Longrightarrow>
   (if attachment_follows rows j
    then attachment_url m = attachment_url (rows ! (j + 1))
         \<and> attachment_id m = post_id (rows ! (j + 1))
    else attachment_url m = [] \<and> attachment_id m = [])"
  by (auto simp add: emitted_def paired_post_def paired_record_def unpaired_post_def Let_def
        split: if_splits sum.splits prod.splits)

lemma emitted_returns:
  assumes "\<forall>r \<in> set rows. is_attachment r \<and> attachment_url r \<noteq> []
             \<longrightarrow> url_path (attachment_url r) \<noteq> None"
  shows "\<exists>m. emitted url_path rows j = Inr m"
proof (cases "attachment_follows rows j")
  case False
  then show ?thesis by (simp add: emitted_def)
next
  case True
  then have "rows ! (j + 1) \<in> set rows" and "is_attachment (rows ! (j + 1))"
    by (simp_all add: attachment_follows_def)
  with assms have "attachment_url (rows ! (j + 1)) \<noteq> []
      \<longrightarrow> url_path (attachment_url (rows ! (j + 1))) \<noteq> None" by blast
  with True show ?thesis
    by (auto simp add: emitted_def paired_post_def get_filename_def split: option.splits)
qed

lemma map_Inr_all2:
  "map f xs = map Inr out \<Longrightarrow> (\<And>x v. f x = Inr v \<Longrightarrow> P x v) \<Longrightarrow> list_all2 P xs out"
  by (induction xs arbitrary: out) auto

lemma merge_attachments_corrected_run:
  "merge_attachments_corrected up rows = Inr out \<Longrightarrow>
   map (emitted up rows) (content_positions rows 0) = map Inr out"
  unfolding merge_attachments_corrected_def merge_loop_run
  by (auto split: sum.splits dest: collect_Inr)

section \<open>Reconciliation\<close>

text \<open>
  Reconciliation conservation, where it holds. When the corrected reconciler returns, it
  has emitted one merged record for each content record of the input, with that
  record's own fields, in the order of the input; it returns when \<open>urlparse\<close>
  accepts the URL of every attachment row. The reconciler of the formatted pipeline
  (\<open>merge_with_attachments\<close>) calls no \<open>urlparse\<close> and does so on every input.
\<close>

theorem reconciliation_conservation:
  "(merge_attachments_corrected url_path rows = Inr out \<longrightarrow>
      map content_fields out = map content_fields (filter is_content rows)
      \<and> length out = length (filter is_content rows))
   \<and> ((\<forall>r \<in> set rows. is_attachment r \<and> attachment_url r \<noteq> []
          \<longrightarrow> url_path (attachment_url r) \<noteq> None) \<longrightarrow>
      (\<exists>out'. merge_attachments_corrected url_path rows = Inr out'))
   \<and> map content_fields (merge_with_attachments rows)
     = map content_fields (filter is_content rows)
   \<and> length (merge_with_attachments rows) = length (filter is_content rows)"
proof (intro conjI impI)
  assume r: "merge_attachments_corrected url_path rows = Inr out"
  have "list_all2 (\<lambda>j m. content_fields m = content_fields (rows ! j))
          (content_positions rows 0) out"
    using merge_attachments_corrected_run [OF r] emitted_content by (rule map_Inr_all2)
  then have "map content_fields out
      = map (\<lambda>j. content_fields (rows ! j)) (content_positions rows 0)"
    by (induction rule: list_all2_induct) simp_all
  also have "\<dots> = map content_fields (map ((!) rows) (content_positions rows 0))"
    by simp
  finally show a: "map content_fields out = map content_fields (filter is_content rows)"
    by (simp only: filter_positions)
  from a have "length (map content_fields out)
      = length (map content_fields (filter is_content rows))" by simp
  then show "length out = length (filter is_content rows)" by simp
next
  assume ok: "\<forall>r \<in> set rows. is_attachment r \<and> attachment_url r \<noteq> []
          \<longrightarrow> url_path (attachment_url r) \<noteq> None"
  have "\<forall>x \<in> set (map (emitted url_path rows) (content_positions rows 0)). \<exists>v. x = Inr v"
    using emitted_returns [OF ok] by auto
  then obtain vs where "collect (map (emitted url_path rows) (content_positions rows 0)) = Inr vs"
    using collect_all_Inr by blast
  then show "\<exists>out'. merge_attachments_corrected url_path rows = Inr out'"
    unfolding merge_attachments_corrected_def merge_loop_run by simp
next
  show b: "map content_fields (merge_with_attachments rows)
     = map content_fields (filter is_content rows)"
    by (simp add: merge_with_attachments_def merge_with_loop_content)
  from b have "length (map content_fields (merge_with_attachments rows))
     = length (map content_fields (filter is_content rows))" by simp
  then show "length (merge_with_attachments rows) = length (filter is_content rows)"
    by simp
qed

theorem reconciliation_conservation_witness:
  "merge_attachments_corrected urlparse_path_sample [post_a, media_x, media_empty, post_b]
     = Inr [paired_record post_a media_x ''summer-bbq-recap'', unpaired_post post_b]
   \<and> map content_fields [paired_record post_a media_x ''summer-bbq-recap'', unpaired_post post_b]
     = map content_fields (filter is_content [post_a, media_x, media_empty, post_b])
   \<and> length (filter is_content [post_a, media_x, media_empty, post_b]) = 2
   \<and> (\<exists>out'. merge_attachments_corrected urlparse_path_sample
                [post_a, media_x, media_empty, post_b] = Inr out')"
proof -
  have run: "merge_attachments_corrected urlparse_path_sample [post_a, media_x, media_empty, post_b]
     = Inr [paired_record post_a media_x ''summer-bbq-recap'', unpaired_post post_b]"
    by code_simp
  have n: "length (filter is_content [post_a, media_x, media_empty, post_b]) = 2"
    by code_simp
  from run n
    reconciliation_conservation [of urlparse_path_sample "[post_a, media_x, media_empty, post_b]"
      "[paired_record post_a media_x ''summer-bbq-recap'', unpaired_post post_b]"]
  show ?thesis by simp
qed

text \<open>
  Adjacency pairing, over a whole run that returns. The records of the output stand
  for the content rows in order; the record of the content row at position \<open>j\<close> has
  that row's fields, and it has the URL and the id of the row at \<open>j + 1\<close> when that
  row is an attachment, and an empty URL and id otherwise. An attachment row is
  paired from the position before it only, so no attachment row is in two records:
  the positions of the attachments that were paired are distinct.
\<close>

theorem adjacency_pairing_run:
  assumes "merge_attachments_corrected url_path rows = Inr out"
  shows "list_all2
           (\<lambda>j m. content_fields m = content_fields (rows ! j)
              \<and> (if attachment_follows rows j
                 then attachment_url m = attachment_url (rows ! (j + 1))
                      \<and> attachment_id m = post_id (rows ! (j + 1))
                 else attachment_url m = [] \<and> attachment_id m = []))
           (content_positions rows 0) out
         \<and> distinct (map (\<lambda>j. j + 1)
                      (filter (attachment_follows rows) (content_positions rows 0)))"
proof
  show "list_all2
           (\<lambda>j m. content_fields m = content_fields (rows ! j)
              \<and> (if attachment_follows rows j
                 then attachment_url m = attachment_url (rows ! (j + 1))
                      \<and> attachment_id m = post_id (rows ! (j + 1))
                 else attachment_url m = [] \<and> attachment_id m = []))
           (content_positions rows 0) out"
    using merge_attachments_corrected_run [OF assms]
  proof (rule map_Inr_all2)
    fix j m
    assume "emitted url_path rows j = Inr m"
    then show "content_fields m = content_fields (rows ! j)
              \<and> (if attachment_follows rows j
                 then attachment_url m = attachment_url (rows ! (j + 1))
                      \<and> attachment_id m = post_id (rows ! (j + 1))
                 else attachment_url m = [] \<and> attachment_id m = [])"
      using emitted_content emitted_attachment by blast
  qed
  have "distinct (content_positions rows 0)"
    by (simp add: content_positions_def)
  then have "distinct (filter (attachment_follows rows) (content_positions rows 0))"
    by (rule distinct_filter)
  then show "distinct (map (\<lambda>j. j + 1)
                      (filter (attachment_follows rows) (content_positions rows 0)))"
    by (simp add: distinct_map inj_on_def)
qed

theorem adjacency_pairing_run_witness:
  "merge_attachments_corrected urlparse_path_sample [post_a, media_x, media_empty, post_b]
     = Inr [paired_record post_a media_x ''summer-bbq-recap'', unpaired_post post_b]
   \<and> content_positions [post_a, media_x, media_empty, post_b] 0 = [0, 3]
   \<and> list_all2
        (\<lambda>j m. content_fields m = content_fields ([post_a, media_x, media_empty, post_b] ! j)
           \<and> (if attachment_follows [post_a, media_x, media_empty, post_b] j
              then attachment_url m = attachment_url ([post_a, media_x, media_empty, post_b] ! (j + 1))
                   \<and> attachment_id m = post_id ([post_a, media_x, media_empty, post_b] ! (j + 1))
              else attachment_url m = [] \<and> attachment_id m = []))
        [0, 3] [paired_record post_a media_x ''summer-bbq-recap'', unpaired_post post_b]"
proof -
  have run: "merge_attachments_corrected urlparse_path_sample [post_a, media_x, media_empty, post_b]
     = Inr [paired_record post_a media_x ''summer-bbq-recap'', unpaired_post post_b]"
    by code_simp
  have pos: "content_positions [post_a, media_x, media_empty, post_b] 0 = [0, 3]"
    by code_simp
  from adjacency_pairing_run [OF run] run pos show ?thesis by simp
qed

text \<open>
  Adjacency pairing, on one pass of the loop with the cursor on a content row. When an
  attachment follows and its filename is found, the pass appends one record with the
  attachment's URL and id and moves the cursor by 2; when \<open>get_filename\<close> raises, the
  pass raises; when no attachment follows, the pass appends one record with an empty URL
  and id and moves the cursor by 1.
\<close>

theorem adjacency_pairing_step:
  assumes "i < length rows" and "is_content (rows ! i)"
  shows "if attachment_follows rows i
         then (case get_filename url_path (attachment_url (rows ! (i + 1))) of
                 Inl e \<Rightarrow> merge_step url_path rows (i, merged_posts) = Inl e
               | Inr filename \<Rightarrow>
                   (\<exists>m. merge_step url_path rows (i, merged_posts) = Inr (i + 2, merged_posts @ [m])
                      \<and> attachment_url m = attachment_url (rows ! (i + 1))
                      \<and> attachment_id m = post_id (rows ! (i + 1))
                      \<and> attachment_filename m = filename
                      \<and> content_fields m = content_fields (rows ! i)))
         else (\<exists>m. merge_step url_path rows (i, merged_posts) = Inr (i + 1, merged_posts @ [m])
                 \<and> attachment_url m = [] \<and> attachment_id m = []
                 \<and> content_fields m = content_fields (rows ! i))"
proof (cases "attachment_follows rows i")
  case True
  show ?thesis
  proof (cases "get_filename url_path (attachment_url (rows ! (i + 1)))")
    case (Inl e)
    with True assms show ?thesis
      by (simp add: merge_step_paired paired_post_def)
  next
    case (Inr filename)
    with True assms have "merge_step url_path rows (i, merged_posts) =
        Inr (i + 2, merged_posts @ [paired_record (rows ! i) (rows ! (i + 1)) filename])"
      by (simp add: merge_step_paired paired_post_def)
    moreover have "attachment_url (paired_record (rows ! i) (rows ! (i + 1)) filename)
        = attachment_url (rows ! (i + 1))"
      and "attachment_id (paired_record (rows ! i) (rows ! (i + 1)) filename)
        = post_id (rows ! (i + 1))"
      and "attachment_filename (paired_record (rows ! i) (rows ! (i + 1)) filename) = filename"
      by (simp_all add: paired_record_def Let_def split: prod.splits)
    ultimately show ?thesis using True Inr by simp
  qed
next
  case False
  with assms have "merge_step url_path rows (i, merged_posts) =
      Inr (i + 1, merged_posts @ [unpaired_post (rows ! i)])"
    by (simp add: merge_step_unpaired)
  moreover have "attachment_url (unpaired_post (rows ! i)) = []"
    and "attachment_id (unpaired_post (rows ! i)) = []"
    by (simp_all add: unpaired_post_def)
  ultimately show ?thesis using False by simp
qed

theorem adjacency_pairing_step_witness:
  "(0::nat) < length [post_a, media_x] \<and> is_content ([post_a, media_x] ! 0)
   \<and> attachment_follows [post_a, media_x] 0
   \<and> get_filename urlparse_path_sample (attachment_url ([post_a, media_x] ! (0 + 1)))
       = Inr ''summer-bbq-recap''
   \<and> (\<exists>m. merge_step urlparse_path_sample [post_a, media_x] (0, []) = Inr (0 + 2, [m])
          \<and> attachment_url m = ''https://cdn.example.com/img/summer-bbq-recap.jpg''
          \<and> attachment_id m = ''201''
          \<and> attachment_filename m = ''summer-bbq-recap''
          \<and> content_fields m = content_fields post_a)"
proof -
  have f: "get_filename urlparse_path_sample (attachment_url ([post_a, media_x] ! (0 + 1)))
       = Inr ''summer-bbq-recap''"
    by code_simp
  have a: "attachment_follows [post_a, media_x] 0"
    by code_simp
  from f a adjacency_pairing_step [of 0 "[post_a, media_x]" urlparse_path_sample "[]"]
  show ?thesis
    by (simp add: is_content_def post_a_def media_x_def)
qed

text \<open>
  Claim C1 (reconciliation conservation) does not hold of the corrected reconciler on
  every input. A post followed by an attachment whose URL is \<open>http://[bad/x.jpg\<close>:
  \<open>urlparse\<close> raises \<open>ValueError\<close> on that URL, \<open>get_filename\<close> does not catch
  it, and the run ends with the exception; the input has one content record and the
  reconciler emits none.
\<close>

theorem merge_attachments_corrected_raises:
  assumes "url_path ''http://[bad/x.jpg'' = None"
  shows "merge_attachments_corrected url_path [post_a, media_bad] = Inl ValueError
         \<and> filter is_content [post_a, media_bad] = [post_a]
         \<and> length (merge_with_attachments [post_a, media_bad]) = 1"
proof -
  have c: "is_content post_a" "is_attachment media_bad" "\<not> is_content media_bad"
    by (simp_all add: is_content_def is_attachment_def post_a_def media_bad_def)
  have "paired_post url_path post_a media_bad = Inl ValueError"
    using assms by (simp add: paired_post_def get_filename_def media_bad_def)
  then have "merge_step url_path [post_a, media_bad] (0, []) = Inl ValueError"
    using c by (simp add: merge_step_def)
  then have "merge_attachments_corrected url_path [post_a, media_bad] = Inl ValueError"
    unfolding merge_attachments_corrected_def by (subst merge_loop.simps) simp
  moreover have "filter is_content [post_a, media_bad] = [post_a]"
    using c by simp
  moreover have "length (merge_with_attachments [post_a, media_bad]) = 1"
    by code_simp
  ultimately show ?thesis by simp
qed

theorem merge_attachments_corrected_raises_witness:
  "urlparse_path_sample ''http://[bad/x.jpg'' = None
   \<and> merge_attachments_corrected urlparse_path_sample [post_a, media_bad] = Inl ValueError
   \<and> filter is_content [post_a, media_bad] = [post_a]"
proof -
  have h: "urlparse_path_sample ''http://[bad/x.jpg'' = None"
    by (simp add: urlparse_path_sample_def)
  from h merge_attachments_corrected_raises [of urlparse_path_sample] show ?thesis by simp
qed

text \<open>
  Claim C2 (adjacency pairing) does not hold of the corrected reconciler on every input,
  from the same defect. With the cursor on a post and, after it, an attachment whose URL
  is \<open>http://[bad/x.jpg\<close>, the pass raises \<open>ValueError\<close> in \<open>get_filename\<close>: no
  record with the attachment's URL and id is appended and the cursor does not move.
\<close>

theorem merge_step_raises:
  assumes "url_path ''http://[bad/x.jpg'' = None"
  shows "is_content ([post_a, media_bad] ! 0) \<and> attachment_follows [post_a, media_bad] 0
         \<and> attachment_url ([post_a, media_bad] ! (0 + 1)) = ''http://[bad/x.jpg''
         \<and> merge_step url_path [post_a, media_bad] (0, []) = Inl ValueError"
proof -
  have c: "is_content post_a" "is_attachment media_bad"
    by (simp_all add: is_content_def is_attachment_def post_a_def media_bad_def)
  have "paired_post url_path post_a media_bad = Inl ValueError"
    using assms by (simp add: paired_post_def get_filename_def media_bad_def)
  then have "merge_step url_path [post_a, media_bad] (0, []) = Inl ValueError"
    using c by (simp add: merge_step_def)
  with c show ?thesis by (simp add: attachment_follows_def media_bad_def)
qed

theorem merge_step_raises_witness:
  "urlparse_path_sample ''http://[bad/x.jpg'' = None
   \<and> attachment_follows [post_a, media_bad] 0
   \<and> merge_step urlparse_path_sample [post_a, media_bad] (0, []) = Inl ValueError"
proof -
  have h: "urlparse_path_sample ''http://[bad/x.jpg'' = None"
    by (simp add: urlparse_path_sample_def)
  from h merge_step_raises [of urlparse_path_sample] show ?thesis by simp
qed

text \<open>
  Claim C7 (no-image outcome). A content record that the corrected reconciler leaves
  unpaired, or pairs with an attachment whose URL is empty, gets a merged record with
  \<open>needs_review = YES\<close>, \<open>review_reason = No image\<close> and an empty attachment
  filename; the filename derived from an empty URL is empty, with no call of
  \<open>urlparse\<close>, and the scorer gives it score 0, review, \<open>No image\<close>.
\<close>

theorem no_image_outcome:
  assumes "i < length rows" and "is_content (rows ! i)"
    and "\<not> (i + 1 < length rows \<and> is_attachment (rows ! (i + 1)))
         \<or> attachment_url (rows ! (i + 1)) = []"
  shows "(\<exists>k m. merge_step url_path rows (i, merged_posts) = Inr (k, merged_posts @ [m])
            \<and> needs_review m = ''YES'' \<and> review_reason m = ''No image''
            \<and> attachment_filename m = [])
         \<and> get_filename url_path [] = Inr []
         \<and> check_match_quality (title (rows ! i)) [] = (0, True, ''No image'')"
proof (cases "i + 1 < length rows \<and> is_attachment (rows ! (i + 1))")
  case True
  with assms(3) have empty: "attachment_url (rows ! (i + 1)) = []" by simp
  then have p: "paired_post url_path (rows ! i) (rows ! (i + 1))
      = Inr (paired_record (rows ! i) (rows ! (i + 1)) [])"
    by (simp add: paired_post_def get_filename_def)
  from True assms p have "merge_step url_path rows (i, merged_posts) =
      Inr (i + 2, merged_posts @ [paired_record (rows ! i) (rows ! (i + 1)) []])"
    by (simp add: merge_step_paired attachment_follows_def)
  moreover have "needs_review (paired_record (rows ! i) (rows ! (i + 1)) []) = ''YES''"
    and "review_reason (paired_record (rows ! i) (rows ! (i + 1)) []) = ''No image''"
    and "attachment_filename (paired_record (rows ! i) (rows ! (i + 1)) []) = []"
    by (simp_all add: paired_record_def check_match_quality_def)
  ultimately show ?thesis
    by (simp add: get_filename_def check_match_quality_def)
next
  case False
  with assms have "merge_step url_path rows (i, merged_posts) =
      Inr (i + 1, merged_posts @ [unpaired_post (rows ! i)])"
    by (simp add: merge_step_unpaired attachment_follows_def)
  then show ?thesis
    by (simp add: unpaired_post_def get_filename_def check_match_quality_def)
qed

theorem no_image_outcome_witness:
  "(1::nat) < length [post_a, post_b, media_empty] \<and> is_content ([post_a, post_b, media_empty] ! 1)
   \<and> attachment_url ([post_a, post_b, media_empty] ! (1 + 1)) = []
   \<and> (\<exists>k m. merge_step urlparse_path_sample [post_a, post_b, media_empty] (1, []) = Inr (k, [m])
            \<and> needs_review m = ''YES'' \<and> review_reason m = ''No image''
            \<and> attachment_filename m = [])
   \<and> check_match_quality ''Kayak Trip Tips'' [] = (0, True, ''No image'')"
  using no_image_outcome [of 1 "[post_a, post_b, media_empty]" urlparse_path_sample "[]"]
  by (simp add: is_content_def post_a_def post_b_def media_empty_def)

text \<open>
  Claim C4 (the two reconcilers differ). On an attachment followed by a post, the first
  reconciler (\<open>merge_attachments_to_posts\<close>) gives the post that attachment, and the
  corrected reconciler returns and gives the same post no attachment.
\<close>

theorem reconcilers_not_equivalent:
  "map attachment_assignment (merge_attachments_to_posts [media_x, post_a])
     = [(''101'', ''https://cdn.example.com/img/summer-bbq-recap.jpg'', ''201'')]
   \<and> map_sum id (map attachment_assignment)
       (merge_attachments_corrected url_path [media_x, post_a])
     = Inr [(''101'', [], [])]
   \<and> Inr (map attachment_assignment (merge_attachments_to_posts [media_x, post_a]))
     \<noteq> map_sum id (map attachment_assignment)
         (merge_attachments_corrected url_path [media_x, post_a])"
proof -
  have a: "map attachment_assignment (merge_attachments_to_posts [media_x, post_a])
     = [(''101'', ''https://cdn.example.com/img/summer-bbq-recap.jpg'', ''201'')]"
    by code_simp
  have b: "map_sum id (map attachment_assignment)
       (merge_attachments_corrected url_path [media_x, post_a])
     = Inr [(''101'', [], [])]"
    by code_simp
  show ?thesis unfolding a b by simp
qed

section \<open>Scoring\<close>

text \<open>
  Claim C10 (flag and score). For every title and filename the score of
  \<open>check_match_quality\<close> is one of 0, 1, 2, 5, 8, 10, and the review flag is off
  exactly when the score is 8 or 10, which is exactly when the reason is
  \<open>Partial match\<close> or \<open>Good match\<close>.
\<close>

theorem check_match_quality_flag_score:
  "(case check_match_quality t filename of
      (score, review, reason) \<Rightarrow>
        score \<in> {0, 1, 2, 5, 8, 10}
        \<and> (\<not> review) = (score = 8 \<or> score = 10)
        \<and> (\<not> review) = (reason = ''Partial match'' \<or> reason = ''Good match''))"
  using check_match_quality_cases [of t filename]
  by (auto simp add: generic_names_def)

text \<open>
  Claim C3 (partial-match rule). The claim names title \<open>Kayak Trip Tips\<close> with filename
  \<open>kayaking-adventure-2019\<close> as an input scored 8, \<open>Partial match\<close>. The scorer
  splits the simplified texts into words, and a simplified text has no separator left:
  each is one word, the count of matching pairs is 0, and the result is score 2.
\<close>

theorem check_match_quality_kayak:
  "check_match_quality ''Kayak Trip Tips'' ''kayaking-adventure-2019''
     = (2, True, ''No match - likely stock photo'')"
  by code_simp

text \<open>
  More generally no title and filename are scored 8 or 5: after the test for a good
  match, the only two words cannot contain one another.
\<close>

theorem check_match_quality_never_partial:
  "fst (check_match_quality t filename) \<noteq> 8 \<and> fst (check_match_quality t filename) \<noteq> 5"
  using check_match_quality_cases [of t filename]
  by auto

section \<open>Extraction\<close>



lemma sample_item_link: "re_search_group True ''<link>'' ''</link>'' sample_item = None"
  by code_simp

lemma sample_item_post_name:
  "re_search_group False ''<wp:post_name>'' ''</wp:post_name>'' sample_item = Some ''hello''"
  by code_simp

lemma strip_hello: "strip ''hello'' = ''hello''"
  by code_simp



text \<open>
  Claim C5 (link fallback), as the code has it. For an item with no link field and with
  a post-name field, whose text with the blanks around it removed is the post name:
  the formatting extractor (\<open>parse_xml_with_formatting\<close>) gives as link the post
  name, with a slash before it unless it starts with one; the plain extractor
  (\<open>parse_xml_file\<close>) gives the post name unchanged when it starts with a slash, with a
  slash before it when it starts with \<open>blogfeed/\<close> or \<open>2017/\<close>, and with \<open>/blogfeed/\<close>
  before it otherwise.
\<close>

theorem link_fallback:
  assumes "re_search_group True ''<link>'' ''</link>'' item = None"
    and "re_search_group False ''<wp:post_name>'' ''</wp:post_name>'' item = Some g"
  shows "link (extract_post_formatted clean item)
           = (if prefix ''/'' (strip g) then strip g else ''/'' @ strip g)
         \<and> link (extract_post clean' item)
           = (if prefix ''/'' (strip g) then strip g
              else if prefix ''blogfeed/'' (strip g) \<or> prefix ''2017/'' (strip g)
              then ''/'' @ strip g
              else ''/blogfeed/'' @ strip g)"
  using assms by (simp add: extract_post_formatted_def extract_post_def Let_def)

theorem link_fallback_witness:
  "re_search_group True ''<link>'' ''</link>'' sample_item = None
   \<and> re_search_group False ''<wp:post_name>'' ''</wp:post_name>'' sample_item = Some ''hello''
   \<and> link (extract_post_formatted (\<lambda>s. s) sample_item) = ''/hello''
   \<and> link (extract_post (\<lambda>s. s) sample_item) = ''/blogfeed/hello''"
  using link_fallback [OF sample_item_link sample_item_post_name, of "\<lambda>s. s" "\<lambda>s. s"]
  by (simp add: sample_item_link sample_item_post_name strip_hello)

text \<open>
  The claim as stated, for every extractor, fails on the plain extractor: the post name
  \<open>hello\<close> gives the link \<open>/blogfeed/hello\<close>, not \<open>/hello\<close>.
\<close>

theorem link_fallback_counterexample:
  "re_search_group True ''<link>'' ''</link>'' sample_item = None
   \<and> re_search_group False ''<wp:post_name>'' ''</wp:post_name>'' sample_item = Some ''hello''
   \<and> link (extract_post (\<lambda>s. s) sample_item) = ''/blogfeed/hello''
   \<and> link (extract_post (\<lambda>s. s) sample_item) \<noteq> ''/'' @ ''hello''"
proof -
  have "link (extract_post (\<lambda>s. s) sample_item) = ''/blogfeed/hello''"
    by code_simp
  then show ?thesis
    by (simp add: sample_item_link sample_item_post_name)
qed



section \<open>Image resolution\<close>

lemma lower_sublist:
  "sublist pat r \<Longrightarrow> lower pat = pat \<Longrightarrow> sublist pat (lower r)"
  unfolding lower_def by (metis map_mono_sublist)

lemma lower_logo: "lower ''logo'' = ''logo''"
  by code_simp

lemma lower_icon: "lower ''icon'' = ''icon''"
  by code_simp

lemma try_selectors_Some:
  "try_selectors urljoin url pg sels = Some r \<Longrightarrow>
   \<not> sublist ''logo'' (lower r) \<and> \<not> sublist ''icon'' (lower r)
   \<and> (\<exists>selector img cand. selector \<in> set sels \<and> select_one pg selector = Some img
         \<and> py_or (data_src img) (py_or (data_image img) (src img)) = Some cand
         \<and> cand \<noteq> [] \<and> r = full_url urljoin url cand)"
proof (induction sels)
  case Nil
  then show ?case by simp
next
  case (Cons selector rest)
  show ?case
  proof (cases "select_one pg selector")
    case None
    with Cons show ?thesis by auto
  next
    case (Some img)
    let ?u = "py_or (data_src img) (py_or (data_image img) (src img))"
    show ?thesis
    proof (cases "truthy ?u")
      case False
      with Some Cons show ?thesis by auto
    next
      case True
      then obtain cand where cand: "?u = Some cand" "cand \<noteq> []"
        by (auto simp add: truthy_def split: option.splits list.splits)
      let ?r = "full_url urljoin url cand"
      show ?thesis
      proof (cases "\<not> sublist ''logo'' (lower ?r) \<and> \<not> sublist ''icon'' (lower ?r)")
        case True
        with Some \<open>truthy ?u\<close> cand Cons.prems have "r = ?r" by (simp add: Let_def)
        with True Some cand show ?thesis by auto
      next
        case False
        with Some \<open>truthy ?u\<close> cand Cons.prems
        have "try_selectors urljoin url pg rest = Some r" by (auto simp add: Let_def)
        from Cons.IH [OF this] show ?thesis by auto
      qed
    qed
  qed
qed

lemma header_img_selected:
  "try_selectors (\<lambda>base u. base @ u) ''https://www.example.com/blog/kayak'' page_header_img selectors
     = Some ''https://images.example.com/kayak.jpg''"
  by code_simp

lemma logo_meta_selected:
  "try_selectors (\<lambda>base u. base @ u) ''https://www.example.com/blog/kayak'' page_logo_meta selectors = None"
  by code_simp

text \<open>
  Claim C9 (candidate rejection), as the code has it. In the resolver of
  scrape\_images\_v2.py an image URL found by the selector strategies is returned, holds
  neither \<open>logo\<close> nor \<open>icon\<close> in any letter case, and is the first non-empty one
  of the attributes \<open>data-src\<close>, \<open>data-image\<close>, \<open>src\<close> of a selected element: with
  \<open>https:\<close> before it when it starts with \<open>//\<close>, joined to the page URL when it
  starts with \<open>/\<close>, unchanged otherwise. When no selector gives a URL, the result is
  the content of \<open>og:image\<close>, else of \<open>twitter:image\<close>, as it stands.
\<close>

theorem resolver_selector_rejection:
  "(try_selectors urljoin url pg selectors = Some r \<longrightarrow>
      get_header_image urljoin url (Some pg) = Some r
      \<and> \<not> sublist ''logo'' r \<and> \<not> sublist ''icon'' r
      \<and> \<not> sublist ''logo'' (lower r) \<and> \<not> sublist ''icon'' (lower r)
      \<and> (\<exists>selector img cand. selector \<in> set selectors \<and> select_one pg selector = Some img
            \<and> py_or (data_src img) (py_or (data_image img) (src img)) = Some cand
            \<and> cand \<noteq> []
            \<and> r = (if prefix ''//'' cand then ''https:'' @ cand
                    else if prefix ''/'' cand then urljoin url cand else cand)))
   \<and> (try_selectors urljoin url pg selectors = None \<longrightarrow>
      get_header_image urljoin url (Some pg)
        = (case meta_content (og_image pg) of
             Some c \<Rightarrow> Some c | None \<Rightarrow> meta_content (twitter_image pg)))"
proof (intro conjI impI)
  assume sel: "try_selectors urljoin url pg selectors = Some r"
  then show "get_header_image urljoin url (Some pg) = Some r"
    by (simp add: get_header_image_def)
  from try_selectors_Some [OF sel]
  have low: "\<not> sublist ''logo'' (lower r)" "\<not> sublist ''icon'' (lower r)"
    and ex: "\<exists>selector img cand. selector \<in> set selectors \<and> select_one pg selector = Some img
         \<and> py_or (data_src img) (py_or (data_image img) (src img)) = Some cand
         \<and> cand \<noteq> [] \<and> r = full_url urljoin url cand"
    by blast+
  from low show "\<not> sublist ''logo'' (lower r)" and "\<not> sublist ''icon'' (lower r)" .
  from low(1) show "\<not> sublist ''logo'' r" using lower_sublist [OF _ lower_logo] by blast
  from low(2) show "\<not> sublist ''icon'' r" using lower_sublist [OF _ lower_icon] by blast
  from ex show "\<exists>selector img cand. selector \<in> set selectors \<and> select_one pg selector = Some img
            \<and> py_or (data_src img) (py_or (data_image img) (src img)) = Some cand
            \<and> cand \<noteq> []
            \<and> r = (if prefix ''//'' cand then ''https:'' @ cand
                    else if prefix ''/'' cand then urljoin url cand else cand)"
    unfolding full_url_def .
next
  assume "try_selectors urljoin url pg selectors = None"
  then show "get_header_image urljoin url (Some pg)
        = (case meta_content (og_image pg) of
             Some c \<Rightarrow> Some c | None \<Rightarrow> meta_content (twitter_image pg))"
    by (simp add: get_header_image_def)
qed

theorem resolver_selector_rejection_witness:
  "try_selectors (\<lambda>base u. base @ u) ''https://www.example.com/blog/kayak'' page_header_img selectors
     = Some ''https://images.example.com/kayak.jpg''
   \<and> get_header_image (\<lambda>base u. base @ u) ''https://www.example.com/blog/kayak''
       (Some page_header_img) = Some ''https://images.example.com/kayak.jpg''
   \<and> \<not> sublist ''logo'' ''https://images.example.com/kayak.jpg''
   \<and> try_selectors (\<lambda>base u. base @ u) ''https://www.example.com/blog/kayak'' page_logo_meta selectors
     = None
   \<and> get_header_image (\<lambda>base u. base @ u) ''https://www.example.com/blog/kayak''
       (Some page_logo_meta) = Some ''/assets/site-logo.png''"
proof -
  have m: "meta_content (og_image page_logo_meta) = Some ''/assets/site-logo.png''"
    by (simp add: meta_content_def page_logo_meta_def truthy_def)
  from m header_img_selected logo_meta_selected
    resolver_selector_rejection [of "\<lambda>base u. base @ u" "''https://www.example.com/blog/kayak''"
      page_header_img "''https://images.example.com/kayak.jpg''"]
    resolver_selector_rejection [of "\<lambda>base u. base @ u" "''https://www.example.com/blog/kayak''"
      page_logo_meta "[]"]
  show ?thesis by simp
qed

text \<open>
  The claim as stated, for the meta-tag fallbacks too, fails: with no image element on
  the page and an \<open>og:image\<close> of \<open>/assets/site-logo.png\<close>, the resolver returns that
  text, which holds \<open>logo\<close> and is root-relative.
\<close>

theorem resolver_meta_counterexample:
  "get_header_image (\<lambda>base u. base @ u) ''https://www.example.com/blog/kayak''
       (Some page_logo_meta) = Some ''/assets/site-logo.png''
   \<and> sublist ''logo'' ''/assets/site-logo.png''
   \<and> prefix ''/'' ''/assets/site-logo.png''"
proof -
  have "get_header_image (\<lambda>base u. base @ u) ''https://www.example.com/blog/kayak''
       (Some page_logo_meta) = Some ''/assets/site-logo.png''"
    by code_simp
  moreover have "sublist ''logo'' ''/assets/site-logo.png''"
    by code_simp
  ultimately show ?thesis by simp
qed

section \<open>Lemmas on the sanitizers\<close>

subsection \<open>Stripping\<close>











subsection \<open>Runs of whitespace\<close>







subsection \<open>Blank lines\<close>











subsection \<open>A sanitized text with no wrapper left\<close>







section \<open>Sanitizing twice\<close>




end
